theory Spec2Isabelle
  imports Main
begin

section \<open>StorageAPI: a key-value helper over the browser's storage areas\<close>

text \<open>
  The development embeds \<^verbatim>\<open>src/StorageAPI.ts\<close>: the class \<^verbatim>\<open>StorageAPI\<close>
  (\<^verbatim>\<open>SaveItemWithExpiration\<close>, \<^verbatim>\<open>SaveItem\<close>, \<^verbatim>\<open>GetItem\<close>, \<^verbatim>\<open>Contains\<close>,
  \<^verbatim>\<open>Clear\<close>), the constant \<^verbatim>\<open>DefaultExpiration\<close> and the function
  \<^verbatim>\<open>SaveUserSession\<close>.

  What the file takes from its host is made explicit:
  \<^item> the two storage areas, the flag \<^verbatim>\<open>browser\<close> and the clock read by
    \<^verbatim>\<open>new Date()\<close> are the fields of a record \<open>world\<close> that every operation takes
    and returns;
  \<^item> the storage areas are there in every world: \<^verbatim>\<open>Contains\<close> and \<^verbatim>\<open>Clear\<close> do not
    test \<^verbatim>\<open>browser\<close>, and what a host without \<^verbatim>\<open>localStorage\<close> does with them is
    outside the model;
  \<^item> \<^verbatim>\<open>JSON.stringify\<close> and \<^verbatim>\<open>JSON.parse\<close> are modelled on JSON with integer
    numbers and strings of code units below 256, the members of an object kept in the
    order they were written;
  \<^item> \<^verbatim>\<open>generateRandomToken\<close> is a parameter;
  \<^item> numbers are mathematical integers: a \<^verbatim>\<open>Date\<close> is its \<^verbatim>\<open>getTime()\<close>, a count of
    milliseconds, and the sums the code forms are assumed to stay in the range where
    JavaScript's numbers are exact.
\<close>

subsection \<open>JavaScript values\<close>

datatype js =
    JUndefined
  | JNull
  | JBool bool
  | JNum int
  | JStr string
  | JArr "js list"
  | JObj "(string \<times> js) list"

text \<open>The test \<^verbatim>\<open>if (v)\<close>: \<^verbatim>\<open>undefined\<close>, \<^verbatim>\<open>null\<close>, \<^verbatim>\<open>false\<close>, \<^verbatim>\<open>0\<close> and the
  empty string are falsy, everything else is truthy.\<close>

fun truthy :: "js \<Rightarrow> bool" where
  "truthy JUndefined = False"
| "truthy JNull = False"
| "truthy (JBool b) = b"
| "truthy (JNum n) = (n \<noteq> 0)"
| "truthy (JStr s) = (s \<noteq> [])"
| "truthy (JArr xs) = True"
| "truthy (JObj kvs) = True"

datatype error =
    NotDecoded  \<comment> \<open>\<^verbatim>\<open>JSON.parse\<close> threw SyntaxError, or the text is JSON that the decoder
                    below does not cover (a fraction, an exponent, a code unit above 255)\<close>
  | TypeError   \<comment> \<open>a property of \<^verbatim>\<open>null\<close> was read\<close>
  | IllTyped    \<comment> \<open>the decoded \<^verbatim>\<open>expires\<close> is truthy and not a number, against the declared
                    type \<^verbatim>\<open>ValidItem\<close>; the coercion of the comparison is not modelled\<close>

text \<open>Reading the property \<open>name\<close> of a value that is neither \<^verbatim>\<open>null\<close> nor
  \<^verbatim>\<open>undefined\<close>. Only \<^verbatim>\<open>value\<close> and \<^verbatim>\<open>expires\<close> are ever read, which no
  prototype defines: on a primitive or an array they are \<^verbatim>\<open>undefined\<close>.\<close>

fun own_prop :: "js \<Rightarrow> string \<Rightarrow> js" where
  "own_prop (JObj kvs) name = (case map_of kvs name of None \<Rightarrow> JUndefined | Some v \<Rightarrow> v)"
| "own_prop v name = JUndefined"

definition nullish :: "js \<Rightarrow> bool" where
  "nullish v = (v = JNull \<or> v = JUndefined)"

text \<open>\<^verbatim>\<open>v.name\<close> throws on \<^verbatim>\<open>null\<close> and \<^verbatim>\<open>undefined\<close>; \<^verbatim>\<open>v?.name\<close> gives
  \<^verbatim>\<open>undefined\<close> there.\<close>

definition member :: "js \<Rightarrow> string \<Rightarrow> error + js" where
  "member v name = (if nullish v then Inl TypeError else Inr (own_prop v name))"

definition opt_member :: "js \<Rightarrow> string \<Rightarrow> js" where
  "opt_member v name = (if nullish v then JUndefined else own_prop v name)"

subsection \<open>JSON.stringify\<close>

definition digit_char :: "nat \<Rightarrow> char" where
  "digit_char d = ''0123456789abcdef'' ! (d mod 16)"

fun nat_digits :: "nat \<Rightarrow> string" where
  "nat_digits n = (if n < 10 then [digit_char n] else nat_digits (n div 10) @ [digit_char (n mod 10)])"

declare nat_digits.simps [simp del]

definition show_int :: "int \<Rightarrow> string" where
  "show_int i = (if i < 0 then CHR ''-'' # nat_digits (nat (- i)) else nat_digits (nat i))"

definition code_unit :: "char \<Rightarrow> nat" where
  "code_unit c = of_char c"

text \<open>The quote, the backslash and the control characters are escaped; the control
  characters without a short form become \<^verbatim>\<open>\u00XX\<close>.\<close>

definition escape_char :: "char \<Rightarrow> string" where
  "escape_char c =
     (if c = CHR 0x22 then [CHR 0x5C, CHR 0x22]
      else if c = CHR 0x5C then [CHR 0x5C, CHR 0x5C]
      else if c = CHR 0x08 then [CHR 0x5C, CHR ''b'']
      else if c = CHR 0x0C then [CHR 0x5C, CHR ''f'']
      else if c = CHR 0x0A then [CHR 0x5C, CHR ''n'']
      else if c = CHR 0x0D then [CHR 0x5C, CHR ''r'']
      else if c = CHR 0x09 then [CHR 0x5C, CHR ''t'']
      else if code_unit c < 32
        then [CHR 0x5C, CHR ''u'', CHR ''0'', CHR ''0'',
              digit_char (code_unit c div 16), digit_char (code_unit c mod 16)]
      else [c])"

definition quote :: "string \<Rightarrow> string" where
  "quote s = CHR 0x22 # concat (map escape_char s) @ [CHR 0x22]"

fun join :: "string list \<Rightarrow> string" where
  "join [] = []"
| "join [t] = t"
| "join (t # u # ts) = t @ CHR '','' # join (u # ts)"

text \<open>\<^verbatim>\<open>JSON.stringify(undefined)\<close> is \<^verbatim>\<open>undefined\<close> (\<open>None\<close>); a member whose value is
  \<^verbatim>\<open>undefined\<close> is left out of an object, and an \<^verbatim>\<open>undefined\<close> element of an array is
  written \<^verbatim>\<open>null\<close>.\<close>

fun JSON_stringify :: "js \<Rightarrow> string option"
  and stringify_elements :: "js list \<Rightarrow> string list"
  and stringify_members :: "(string \<times> js) list \<Rightarrow> string list"
where
  "JSON_stringify JUndefined = None"
| "JSON_stringify JNull = Some ''null''"
| "JSON_stringify (JBool b) = Some (if b then ''true'' else ''false'')"
| "JSON_stringify (JNum n) = Some (show_int n)"
| "JSON_stringify (JStr s) = Some (quote s)"
| "JSON_stringify (JArr xs) = Some (CHR ''['' # join (stringify_elements xs) @ '']'')"
| "JSON_stringify (JObj kvs) = Some (CHR ''{'' # join (stringify_members kvs) @ ''}'')"
| "stringify_elements [] = []"
| "stringify_elements (x # xs) =
     (case JSON_stringify x of None \<Rightarrow> ''null'' | Some t \<Rightarrow> t) # stringify_elements xs"
| "stringify_members [] = []"
| "stringify_members ((k, v) # kvs) =
     (case JSON_stringify v of
        None \<Rightarrow> stringify_members kvs
      | Some t \<Rightarrow> (quote k @ CHR '':'' # t) # stringify_members kvs)"

subsection \<open>JSON.parse\<close>

definition is_ws :: "char \<Rightarrow> bool" where
  "is_ws c = (c = CHR 0x20 \<or> c = CHR 0x09 \<or> c = CHR 0x0A \<or> c = CHR 0x0D)"

definition skip_ws :: "string \<Rightarrow> string" where
  "skip_ws cs = dropWhile is_ws cs"

definition is_digit :: "char \<Rightarrow> bool" where
  "is_digit c = (48 \<le> code_unit c \<and> code_unit c \<le> 57)"

definition hex_val :: "char \<Rightarrow> nat option" where
  "hex_val c =
     (let u = code_unit c in
      if 48 \<le> u \<and> u \<le> 57 then Some (u - 48)
      else if 97 \<le> u \<and> u \<le> 102 then Some (u - 87)
      else if 65 \<le> u \<and> u \<le> 70 then Some (u - 55)
      else None)"

text \<open>The character an escape letter stands for.\<close>

definition unescape :: "char \<Rightarrow> char option" where
  "unescape e =
     (if e = CHR 0x22 then Some (CHR 0x22)
      else if e = CHR 0x5C then Some (CHR 0x5C)
      else if e = CHR ''/'' then Some (CHR ''/'')
      else if e = CHR ''b'' then Some (CHR 0x08)
      else if e = CHR ''f'' then Some (CHR 0x0C)
      else if e = CHR ''n'' then Some (CHR 0x0A)
      else if e = CHR ''r'' then Some (CHR 0x0D)
      else if e = CHR ''t'' then Some (CHR 0x09)
      else None)"

text \<open>\<^verbatim>\<open>\uXXXX\<close>: four hexadecimal digits, decoded when the code unit is below 256.\<close>

definition unicode_escape :: "char \<Rightarrow> char \<Rightarrow> char \<Rightarrow> char \<Rightarrow> char option" where
  "unicode_escape a b c d =
     (case (hex_val a, hex_val b, hex_val c, hex_val d) of
        (Some h3, Some h2, Some h1, Some h0) \<Rightarrow>
          (if h3 = 0 \<and> h2 = 0 then Some (char_of (16 * h1 + h0)) else None)
      | _ \<Rightarrow> None)"

definition cons_fst :: "'a \<Rightarrow> ('a list \<times> 'b) option \<Rightarrow> ('a list \<times> 'b) option" where
  "cons_fst x r = (case r of None \<Rightarrow> None | Some (xs, rest) \<Rightarrow> Some (x # xs, rest))"

text \<open>The characters of a string literal, read after its opening quote up to the closing
  one; the result is the decoded string and the input left.\<close>

fun parse_chars :: "string \<Rightarrow> (string \<times> string) option" where
  "parse_chars [] = None"
| "parse_chars (c # cs) =
     (if c = CHR 0x22 then Some ([], cs)
      else if c = CHR 0x5C then
        (case cs of
           [] \<Rightarrow> None
         | e # cs1 \<Rightarrow>
             if e = CHR ''u'' then
               (case cs1 of
                  h3 # h2 # h1 # h0 # cs2 \<Rightarrow>
                    (case unicode_escape h3 h2 h1 h0 of
                       None \<Rightarrow> None
                     | Some u \<Rightarrow> cons_fst u (parse_chars cs2))
                | _ \<Rightarrow> None)
             else
               (case unescape e of
                  None \<Rightarrow> None
                | Some u \<Rightarrow> cons_fst u (parse_chars cs1)))
      else if code_unit c < 32 then None
      else cons_fst c (parse_chars cs))"

text \<open>An integer literal without its sign: digits, with no leading zero.\<close>

definition parse_nat :: "string \<Rightarrow> (nat \<times> string) option" where
  "parse_nat cs =
     (let ds = takeWhile is_digit cs in
      if ds = [] \<or> (hd ds = CHR ''0'' \<and> tl ds \<noteq> []) then None
      else Some (foldl (\<lambda>a d. 10 * a + (code_unit d - 48)) 0 ds, dropWhile is_digit cs))"

definition strip_prefix :: "string \<Rightarrow> string \<Rightarrow> string option" where
  "strip_prefix p cs = (if take (length p) cs = p then Some (drop (length p) cs) else None)"

text \<open>A later member with the same name replaces the earlier one, in its place.\<close>

fun set_member :: "string \<Rightarrow> js \<Rightarrow> (string \<times> js) list \<Rightarrow> (string \<times> js) list" where
  "set_member k v [] = [(k, v)]"
| "set_member k v (p # ps) = (if fst p = k then (k, v) # ps else p # set_member k v ps)"

definition object_of :: "(string \<times> js) list \<Rightarrow> js" where
  "object_of kvs = JObj (foldl (\<lambda>acc (k, v). set_member k v acc) [] kvs)"

text \<open>The values without parts: \<^verbatim>\<open>null\<close>, \<^verbatim>\<open>true\<close>, \<^verbatim>\<open>false\<close>, a string, an integer.\<close>

definition parse_atom :: "string \<Rightarrow> (js \<times> string) option" where
  "parse_atom cs =
     (case cs of
        [] \<Rightarrow> None
      | c # r \<Rightarrow>
          if c = CHR ''n'' then map_option (Pair JNull) (strip_prefix ''null'' cs)
          else if c = CHR ''t'' then map_option (Pair (JBool True)) (strip_prefix ''true'' cs)
          else if c = CHR ''f'' then map_option (Pair (JBool False)) (strip_prefix ''false'' cs)
          else if c = CHR 0x22 then
            (case parse_chars r of None \<Rightarrow> None | Some (s, r1) \<Rightarrow> Some (JStr s, r1))
          else if c = CHR ''-'' then
            (case parse_nat r of None \<Rightarrow> None | Some (m, r1) \<Rightarrow> Some (JNum (- int m), r1))
          else if is_digit c then
            (case parse_nat cs of None \<Rightarrow> None | Some (m, r1) \<Rightarrow> Some (JNum (int m), r1))
          else None)"

text \<open>The recursive descent. Each function returns what it read and the input left. The
  first argument bounds the depth of the recursion; \<open>JSON_parse\<close> starts it above the
  length of the text, which is enough for every text (\<open>JSON_parse_bound\<close> below).
  \<open>parse_elements\<close> reads the elements of an array up to its closing bracket,
  \<open>parse_members\<close> the members of an object up to its closing brace.\<close>

fun parse_value :: "nat \<Rightarrow> string \<Rightarrow> (js \<times> string) option"
  and parse_elements :: "nat \<Rightarrow> string \<Rightarrow> (js list \<times> string) option"
  and parse_members :: "nat \<Rightarrow> string \<Rightarrow> ((string \<times> js) list \<times> string) option"
where
  "parse_value 0 cs = None"
| "parse_value (Suc n) cs =
     (case skip_ws cs of
        [] \<Rightarrow> None
      | c # r \<Rightarrow>
          if c = CHR ''['' then
            (case skip_ws r of
               [] \<Rightarrow> None
             | d # r1 \<Rightarrow>
                 if d = CHR '']'' then Some (JArr [], r1)
                 else (case parse_elements n r of
                         None \<Rightarrow> None
                       | Some (vs, r2) \<Rightarrow> Some (JArr vs, r2)))
          else if c = CHR ''{'' then
            (case skip_ws r of
               [] \<Rightarrow> None
             | d # r1 \<Rightarrow>
                 if d = CHR ''}'' then Some (JObj [], r1)
                 else (case parse_members n r of
                         None \<Rightarrow> None
                       | Some (kvs, r2) \<Rightarrow> Some (object_of kvs, r2)))
          else parse_atom (c # r))"
| "parse_elements 0 cs = None"
| "parse_elements (Suc n) cs =
     (case parse_value n cs of
        None \<Rightarrow> None
      | Some (v, r) \<Rightarrow>
          (case skip_ws r of
             [] \<Rightarrow> None
           | d # r1 \<Rightarrow>
               if d = CHR '','' then cons_fst v (parse_elements n r1)
               else if d = CHR '']'' then Some ([v], r1)
               else None))"
| "parse_members 0 cs = None"
| "parse_members (Suc n) cs =
     (case skip_ws cs of
        [] \<Rightarrow> None
      | q # r \<Rightarrow>
          if q \<noteq> CHR 0x22 then None
          else
            (case parse_chars r of
               None \<Rightarrow> None
             | Some (k, r1) \<Rightarrow>
                 (case skip_ws r1 of
                    [] \<Rightarrow> None
                  | col # r2 \<Rightarrow>
                      if col \<noteq> CHR '':'' then None
                      else
                        (case parse_value n r2 of
                           None \<Rightarrow> None
                         | Some (v, r3) \<Rightarrow>
                             (case skip_ws r3 of
                                [] \<Rightarrow> None
                              | d # r4 \<Rightarrow>
                                  if d = CHR '','' then cons_fst (k, v) (parse_members n r4)
                                  else if d = CHR ''}'' then Some ([(k, v)], r4)
                                  else None)))))"

definition JSON_parse :: "string \<Rightarrow> js option" where
  "JSON_parse txt =
     (case parse_value (Suc (length txt)) txt of
        None \<Rightarrow> None
      | Some (v, r) \<Rightarrow> if skip_ws r = [] then Some v else None)"

subsection \<open>Plain data\<close>

text \<open>The values the serialization is meant for: no \<^verbatim>\<open>undefined\<close> anywhere, and no
  member name twice in an object.\<close>

fun plain :: "js \<Rightarrow> bool"
  and plain_elements :: "js list \<Rightarrow> bool"
  and plain_members :: "(string \<times> js) list \<Rightarrow> bool"
where
  "plain JUndefined = False"
| "plain JNull = True"
| "plain (JBool b) = True"
| "plain (JNum n) = True"
| "plain (JStr s) = True"
| "plain (JArr xs) = plain_elements xs"
| "plain (JObj kvs) = (plain_members kvs \<and> distinct (map fst kvs))"
| "plain_elements [] = True"
| "plain_elements (x # xs) = (plain x \<and> plain_elements xs)"
| "plain_members [] = True"
| "plain_members ((k, v) # kvs) = (plain v \<and> plain_members kvs)"

text \<open>A text starts like a value when its first character is neither white space nor a
  closing bracket.\<close>

definition value_start :: "string \<Rightarrow> bool" where
  "value_start t = (t \<noteq> [] \<and> \<not> is_ws (hd t) \<and> hd t \<noteq> CHR '']'' \<and> hd t \<noteq> CHR ''}'')"

subsection \<open>The host: storage areas, browsing context, clock\<close>

text \<open>A storage area maps keys to texts: \<^verbatim>\<open>getItem\<close> gives the text or \<^verbatim>\<open>null\<close>
  (\<open>None\<close>), \<^verbatim>\<open>setItem\<close> stores the string form of its argument, \<^verbatim>\<open>removeItem\<close>
  deletes one key and \<^verbatim>\<open>clear\<close> all of them.\<close>

type_synonym Storage = "string \<rightharpoonup> string"

definition getItem :: "Storage \<Rightarrow> string \<Rightarrow> string option" where
  "getItem s key = s key"

text \<open>\<^verbatim>\<open>setItem\<close> takes a string; handed \<^verbatim>\<open>undefined\<close> (what \<^verbatim>\<open>JSON.stringify\<close>
  returns on \<^verbatim>\<open>undefined\<close>) it stores the text \<^verbatim>\<open>undefined\<close>.\<close>

definition DOMString :: "string option \<Rightarrow> string" where
  "DOMString t = (case t of None \<Rightarrow> ''undefined'' | Some u \<Rightarrow> u)"

definition setItem :: "Storage \<Rightarrow> string \<Rightarrow> string option \<Rightarrow> Storage" where
  "setItem s key t = s(key \<mapsto> DOMString t)"

definition removeItem :: "Storage \<Rightarrow> string \<Rightarrow> Storage" where
  "removeItem s key = s(key := None)"

definition clear :: "Storage \<Rightarrow> Storage" where
  "clear s = Map.empty"

text \<open>\<open>now\<close> is the instant \<^verbatim>\<open>new Date().getTime()\<close> gives in this world.\<close>

record world =
  browser :: bool
  now :: int
  localStorage :: Storage
  sessionStorage :: Storage

subsection \<open>The class StorageAPI\<close>

datatype StorageType = Local | Session

record Item =
  "value" :: js

record ExpireProps =
  creationDate :: int
  expiresIn :: int

record ItemWithExpiry = Item +
  expires :: ExpireProps

record StorageAPI =
  storage :: StorageType

text \<open>The constructor: \<^verbatim>\<open>this.storage = storageType ?? "local"\<close>.\<close>

definition new_StorageAPI :: "StorageType option \<Rightarrow> StorageAPI" where
  "new_StorageAPI storageType =
     \<lparr>storage = (case storageType of None \<Rightarrow> Local | Some t \<Rightarrow> t)\<rparr>"

text \<open>\<^verbatim>\<open>this.storage === "local" ? localStorage : sessionStorage\<close>, and the same choice
  for writing the area back into the world.\<close>

definition backend :: "StorageAPI \<Rightarrow> world \<Rightarrow> Storage" where
  "backend this w = (if storage this = Local then localStorage w else sessionStorage w)"

definition put_backend :: "StorageAPI \<Rightarrow> Storage \<Rightarrow> world \<Rightarrow> world" where
  "put_backend this s w =
     (if storage this = Local then w\<lparr>localStorage := s\<rparr> else w\<lparr>sessionStorage := s\<rparr>)"

definition SaveItemWithExpiration :: "StorageAPI \<Rightarrow> string \<Rightarrow> ItemWithExpiry \<Rightarrow> world \<Rightarrow> world" where
  "SaveItemWithExpiration this key item w =
     (if \<not> browser w then w
      else
        let created = creationDate (expires item);
            expIn = expiresIn (expires item);
            kvp = JObj [(''value'', value item), (''expires'', JNum (created + expIn))]
        in put_backend this (setItem (backend this w) key (JSON_stringify kvp)) w)"

definition SaveItem :: "StorageAPI \<Rightarrow> string \<Rightarrow> Item \<Rightarrow> world \<Rightarrow> world" where
  "SaveItem this key item w =
     (if \<not> browser w then w
      else put_backend this (setItem (backend this w) key (JSON_stringify (value item))) w)"

text \<open>\<^verbatim>\<open>GetItem\<close> returns the value read, \<^verbatim>\<open>null\<close> as \<open>JNull\<close>, or the exception
  thrown, and the world it leaves. The comparison \<^verbatim>\<open>currentTime.getTime() > item.expires\<close>
  is evaluated on numbers; a truthy \<^verbatim>\<open>expires\<close> of another type is reported
  \<open>IllTyped\<close>.\<close>

definition GetItem :: "StorageAPI \<Rightarrow> string \<Rightarrow> world \<Rightarrow> (error + js) \<times> world" where
  "GetItem this key w =
     (if \<not> browser w then (Inr JNull, w)
      else
        case getItem (backend this w) key of
          None \<Rightarrow> (Inr JNull, w)
        | Some stringValue \<Rightarrow>
            if stringValue = [] then (Inr JNull, w)
            else
              (case JSON_parse stringValue of
                 None \<Rightarrow> (Inl NotDecoded, w)
               | Some item \<Rightarrow>
                   let currentTime = now w in
                   if truthy (opt_member item ''expires'') then
                     (case opt_member item ''expires'' of
                        JNum e \<Rightarrow>
                          if currentTime > e
                          then (Inr JNull, put_backend this (removeItem (backend this w) key) w)
                          else (member item ''value'', w)
                      | _ \<Rightarrow> (Inl IllTyped, w))
                   else (member item ''value'', w)))"

definition Contains :: "StorageAPI \<Rightarrow> string \<Rightarrow> world \<Rightarrow> bool" where
  "Contains this key w = (getItem (backend this w) key \<noteq> None)"

definition Clear :: "StorageAPI \<Rightarrow> world \<Rightarrow> bool \<times> world" where
  "Clear this w = (True, put_backend this (clear (backend this w)) w)"

subsection \<open>SaveUserSession\<close>

text \<open>\<^verbatim>\<open>DefaultExpiration\<close> is a constant of the module: its \<^verbatim>\<open>new Date()\<close> is evaluated
  once, when the module is loaded. \<open>loaded\<close> is that instant.\<close>

definition DefaultExpiration :: "int \<Rightarrow> ExpireProps" where
  "DefaultExpiration loaded = \<lparr>creationDate = loaded, expiresIn = 3600 * (24 * 7)\<rparr>"

record User =
  firstName :: string
  lastName :: string
  username :: string
  token :: string

text \<open>\<open>generateRandomToken\<close> is the imported generator, called once with 12 and once
  with 32; the parameter gives the token each call returned.\<close>

definition SaveUserSession ::
    "int \<Rightarrow> (nat \<Rightarrow> string) \<Rightarrow> User \<Rightarrow> bool \<Rightarrow> world \<Rightarrow> world" where
  "SaveUserSession loaded generateRandomToken user rememberMe w =
     (let st = new_StorageAPI None;
          tokens = (generateRandomToken 12, generateRandomToken 32);
          w1 = SaveItemWithExpiration st ''name''
                 \<lparr>value = JStr (firstName user @ '' '' @ lastName user),
                  expires = DefaultExpiration loaded\<rparr> w;
          w2 = SaveItemWithExpiration st ''username''
                 \<lparr>value = JStr (username user), expires = DefaultExpiration loaded\<rparr> w1;
          w3 = SaveItemWithExpiration st ''token''
                 \<lparr>value = JStr (token user), expires = DefaultExpiration loaded\<rparr> w2;
          w4 = SaveItemWithExpiration st ''selector''
                 \<lparr>value = JStr (fst tokens), expires = DefaultExpiration loaded\<rparr> w3
      in if rememberMe
         then SaveItemWithExpiration st ''validator''
                \<lparr>value = JStr (snd tokens), expires = DefaultExpiration loaded\<rparr> w4
         else SaveItem (new_StorageAPI (Some Session)) ''validator''
                \<lparr>value = JStr (snd tokens)\<rparr> w4)"

subsection \<open>Worlds and tokens for the examples\<close>

text \<open>A world with both storage areas empty, and a generator that returns fixed tokens of
  the two lengths \<^verbatim>\<open>SaveUserSession\<close> asks for.\<close>

definition fresh_world :: "bool \<Rightarrow> int \<Rightarrow> world" where
  "fresh_world b t = \<lparr>browser = b, now = t, localStorage = Map.empty, sessionStorage = Map.empty\<rparr>"

definition sample_token :: "nat \<Rightarrow> string" where
  "sample_token n = (if n = 12 then ''abcdefghijkl'' else ''abcdefghijklmnopqrstuvwxyz012345'')"

section \<open>Basic facts\<close>

lemmas parse_eval = JSON_parse_def parse_atom_def skip_ws_def is_ws_def is_digit_def
  parse_nat_def strip_prefix_def cons_fst_def object_of_def unescape_def

lemmas stringify_eval = show_int_def quote_def escape_char_def digit_char_def
  nat_digits.simps code_unit_def

lemmas storage_eval = fresh_world_def new_StorageAPI_def backend_def put_backend_def
  getItem_def setItem_def removeItem_def clear_def DOMString_def

lemmas member_eval = member_def opt_member_def nullish_def

lemma JSON_parse_Nil: "JSON_parse [] = None"
  by (simp add: JSON_parse_def skip_ws_def)

subsection \<open>The bound of the decoder\<close>

text \<open>Every function of the decoder consumes input when it succeeds, so the depth of the
  recursion stays below the length of the text: a parse that succeeds with some bound
  succeeds, with the same result, with every bound that is at least the number of
  characters it consumed. Hence the bound that \<open>JSON_parse\<close> starts with never cuts a
  parse short.\<close>

lemma length_skip_ws: "length (skip_ws cs) \<le> length cs"
  by (simp add: skip_ws_def length_dropWhile_le)

lemma skip_ws_Cons_length: "skip_ws cs = c # r \<Longrightarrow> length r < length cs"
  using length_skip_ws [of cs] by simp

lemma cons_fst_Some:
  "cons_fst x r = Some (ys, rest) \<longleftrightarrow> (\<exists>xs. r = Some (xs, rest) \<and> ys = x # xs)"
  by (auto simp: cons_fst_def split: option.splits)

lemma parse_chars_length: "parse_chars cs = Some (s, r) \<Longrightarrow> length r < length cs"
proof (induction cs arbitrary: s r rule: parse_chars.induct)
  case 1
  then show ?case by simp
next
  case (2 c cs)
  then show ?case
    apply (simp split: if_splits list.splits option.splits add: cons_fst_Some)
    apply fastforce+
    done
qed

lemma parse_nat_length: "parse_nat cs = Some (m, r) \<Longrightarrow> length r < length cs"
proof -
  assume a: "parse_nat cs = Some (m, r)"
  then have ne: "takeWhile is_digit cs \<noteq> []" and r: "r = dropWhile is_digit cs"
    by (auto simp: parse_nat_def Let_def split: if_splits)
  have "length (takeWhile is_digit cs) + length (dropWhile is_digit cs) = length cs"
    by (metis length_append takeWhile_dropWhile_id)
  with ne r show ?thesis by (cases "takeWhile is_digit cs") auto
qed

lemma strip_prefix_length:
  "strip_prefix (p # ps) cs = Some r \<Longrightarrow> length r < length cs"
  by (cases cs) (auto simp: strip_prefix_def split: if_splits)

lemma parse_atom_length: "parse_atom cs = Some (v, r) \<Longrightarrow> length r < length cs"
  by (auto simp: parse_atom_def split: list.splits if_splits option.splits
      dest: strip_prefix_length parse_chars_length parse_nat_length)

lemma parse_consumes:
  "parse_value m cs = Some (v, r) \<Longrightarrow> length r < length cs"
  "parse_elements m cs = Some (vs, r1) \<Longrightarrow> length r1 < length cs"
  "parse_members m cs = Some (kvs, r2) \<Longrightarrow> length r2 < length cs"
proof (induction m cs and m cs and m cs arbitrary: v r and vs r1 and kvs r2
    rule: parse_value_parse_elements_parse_members.induct)
  case (1 cs)
  then show ?case by simp
next
  case (2 n cs)
  from "2.prems" obtain c r0 where s: "skip_ws cs = c # r0"
    by (auto split: list.splits)
  have l0: "length r0 < length cs"
    using s by (rule skip_ws_Cons_length)
  consider (arr) "c = CHR ''[''" | (obj) "c \<noteq> CHR ''[''" "c = CHR ''{''"
    | (atom) "c \<noteq> CHR ''[''" "c \<noteq> CHR ''{''"
    by blast
  then show ?case
  proof cases
    case arr
    from "2.prems" s arr obtain d r' where s1: "skip_ws r0 = d # r'"
      by (auto split: list.splits)
    show ?thesis
    proof (cases "d = CHR '']''")
      case True
      with "2.prems" s s1 arr have "r = r'" by simp
      with skip_ws_Cons_length [OF s1] l0 show ?thesis by simp
    next
      case False
      with "2.prems" s s1 arr obtain vs where "parse_elements n r0 = Some (vs, r)"
        by (auto split: option.splits)
      with "2.IH"(1) [OF s arr s1 False] l0 show ?thesis by fastforce
    qed
  next
    case obj
    from "2.prems" s obj obtain d r' where s1: "skip_ws r0 = d # r'"
      by (auto split: list.splits)
    show ?thesis
    proof (cases "d = CHR ''}''")
      case True
      with "2.prems" s s1 obj have "r = r'" by simp
      with skip_ws_Cons_length [OF s1] l0 show ?thesis by simp
    next
      case False
      with "2.prems" s s1 obj obtain kvs where "parse_members n r0 = Some (kvs, r)"
        by (auto split: option.splits)
      with "2.IH"(2) [OF s obj s1 False] l0 show ?thesis by fastforce
    qed
  next
    case atom
    with "2.prems" s have "parse_atom (c # r0) = Some (v, r)" by simp
    from parse_atom_length [OF this] length_skip_ws [of cs] s show ?thesis by simp
  qed
next
  case (3 cs)
  then show ?case by simp
next
  case (4 n cs)
  from "4.prems" obtain v r where pv: "parse_value n cs = Some (v, r)"
    by (auto split: option.splits)
  from "4.IH"(1) [OF pv] have l: "length r < length cs" .
  from "4.prems" pv obtain d r' where s: "skip_ws r = d # r'"
    by (auto split: list.splits)
  have l': "length r' < length r"
    using s by (rule skip_ws_Cons_length)
  show ?case
  proof (cases "d = CHR '',''")
    case True
    with "4.prems" pv s obtain vs' where "parse_elements n r' = Some (vs', r1)"
      by (auto simp: cons_fst_Some)
    with "4.IH"(2) [OF pv refl s True] l l' show ?thesis by fastforce
  next
    case False
    with "4.prems" pv s have "r1 = r'" by (auto split: if_splits)
    with l l' show ?thesis by simp
  qed
next
  case (5 cs)
  then show ?case by simp
next
  case (6 n cs)
  from "6.prems" obtain q r where s: "skip_ws cs = q # r"
    by (auto split: list.splits)
  from "6.prems" s have q: "q = CHR 0x22" by (auto split: if_splits)
  from "6.prems" s q obtain k ra where pc: "parse_chars r = Some (k, ra)"
    by (auto split: option.splits)
  from "6.prems" s q pc obtain col rb where s1: "skip_ws ra = col # rb"
    by (auto split: list.splits)
  from "6.prems" s q pc s1 have col: "col = CHR '':''" by (auto split: if_splits)
  from "6.prems" s q pc s1 col obtain v rc where pv: "parse_value n rb = Some (v, rc)"
    by (auto split: option.splits)
  from "6.prems" s q pc s1 col pv obtain d rd where s2: "skip_ws rc = d # rd"
    by (auto split: list.splits)
  have l: "length rd < length cs"
    using skip_ws_Cons_length [OF s] parse_chars_length [OF pc] skip_ws_Cons_length [OF s1]
      "6.IH"(1) [OF s _ pc refl s1 _ pv] q col skip_ws_Cons_length [OF s2]
    by simp
  show ?case
  proof (cases "d = CHR '',''")
    case True
    with "6.prems" s q pc s1 col pv s2 obtain kvs' where pm: "parse_members n rd = Some (kvs', r2)"
      by (auto simp: cons_fst_Some)
    from "6.IH"(2) [OF s _ pc refl s1 _ pv refl s2 True pm] q col l show ?thesis by simp
  next
    case False
    with "6.prems" s q pc s1 col pv s2 have "r2 = rd" by (auto split: if_splits)
    with l show ?thesis by simp
  qed
qed

lemma parse_fuel:
  "parse_value m cs = Some (v, r) \<Longrightarrow> length cs - length r \<le> n \<Longrightarrow>
     parse_value n cs = Some (v, r)"
  "parse_elements m cs = Some (vs, r1) \<Longrightarrow> length cs - length r1 \<le> n1 \<Longrightarrow>
     parse_elements n1 cs = Some (vs, r1)"
  "parse_members m cs = Some (kvs, r2) \<Longrightarrow> length cs - length r2 \<le> n2 \<Longrightarrow>
     parse_members n2 cs = Some (kvs, r2)"
proof (induction m cs and m cs and m cs arbitrary: v r n and vs r1 n1 and kvs r2 n2
    rule: parse_value_parse_elements_parse_members.induct)
  case (1 cs)
  then show ?case by simp
next
  case (2 m cs)
  from "2.prems"(1) obtain c r0 where s: "skip_ws cs = c # r0"
    by (auto split: list.splits)
  have l0: "length r0 < length cs"
    using s by (rule skip_ws_Cons_length)
  have "length r < length cs"
    using "2.prems"(1) by (rule parse_consumes)
  with "2.prems"(2) obtain n' where n: "n = Suc n'"
    by (cases n) auto
  consider (arr) "c = CHR ''[''" | (obj) "c \<noteq> CHR ''[''" "c = CHR ''{''"
    | (atom) "c \<noteq> CHR ''[''" "c \<noteq> CHR ''{''"
    by blast
  then show ?case
  proof cases
    case arr
    from "2.prems"(1) s arr obtain d r' where s1: "skip_ws r0 = d # r'"
      by (auto split: list.splits)
    show ?thesis
    proof (cases "d = CHR '']''")
      case True
      with "2.prems"(1) s s1 arr n show ?thesis by simp
    next
      case False
      with "2.prems"(1) s s1 arr obtain vs where pe: "parse_elements m r0 = Some (vs, r)"
        and v: "v = JArr vs"
        by (auto split: option.splits)
      have "length r0 - length r \<le> n'"
        using "2.prems"(2) l0 n by simp
      from "2.IH"(1) [OF s arr s1 False pe this] s s1 arr False v n show ?thesis by simp
    qed
  next
    case obj
    from "2.prems"(1) s obj obtain d r' where s1: "skip_ws r0 = d # r'"
      by (auto split: list.splits)
    show ?thesis
    proof (cases "d = CHR ''}''")
      case True
      with "2.prems"(1) s s1 obj n show ?thesis by simp
    next
      case False
      with "2.prems"(1) s s1 obj obtain kvs where pm: "parse_members m r0 = Some (kvs, r)"
        and v: "v = object_of kvs"
        by (auto split: option.splits)
      have "length r0 - length r \<le> n'"
        using "2.prems"(2) l0 n by simp
      from "2.IH"(2) [OF s obj s1 False pm this] s s1 obj False v n show ?thesis by simp
    qed
  next
    case atom
    with "2.prems"(1) s n show ?thesis by simp
  qed
next
  case (3 cs)
  then show ?case by simp
next
  case (4 m cs)
  from "4.prems"(1) obtain v r where pv: "parse_value m cs = Some (v, r)"
    by (auto split: option.splits)
  have l: "length r < length cs"
    using pv by (rule parse_consumes)
  from "4.prems"(1) pv obtain d r' where s: "skip_ws r = d # r'"
    by (auto split: list.splits)
  have l': "length r' < length r"
    using s by (rule skip_ws_Cons_length)
  have "length r1 < length cs"
    using "4.prems"(1) by (rule parse_consumes)
  with "4.prems"(2) obtain n' where n: "n1 = Suc n'"
    by (cases n1) auto
  show ?case
  proof (cases "d = CHR '',''")
    case True
    with "4.prems"(1) pv s obtain vs' where pe: "parse_elements m r' = Some (vs', r1)"
      and vs: "vs = v # vs'"
      by (auto simp: cons_fst_Some)
    have l1: "length r1 < length r'"
      using pe by (rule parse_consumes)
    have "length cs - length r \<le> n'"
      using "4.prems"(2) l l' l1 n by simp
    from "4.IH"(1) [OF pv this] have pv': "parse_value n' cs = Some (v, r)" .
    have "length r' - length r1 \<le> n'"
      using "4.prems"(2) l l' l1 n by simp
    from "4.IH"(2) [OF pv refl s True pe this] pv' s True vs n show ?thesis
      by (simp add: cons_fst_def)
  next
    case False
    with "4.prems"(1) pv s have r1: "r1 = r'" and d: "d = CHR '']''" and vs: "vs = [v]"
      by (auto split: if_splits)
    have "length cs - length r \<le> n'"
      using "4.prems"(2) l l' r1 n by simp
    from "4.IH"(1) [OF pv this] s r1 d vs n show ?thesis by simp
  qed
next
  case (5 cs)
  then show ?case by simp
next
  case (6 m cs)
  from "6.prems"(1) obtain q r where s: "skip_ws cs = q # r"
    by (auto split: list.splits)
  from "6.prems"(1) s have q: "q = CHR 0x22" by (auto split: if_splits)
  from "6.prems"(1) s q obtain k ra where pc: "parse_chars r = Some (k, ra)"
    by (auto split: option.splits)
  from "6.prems"(1) s q pc obtain col rb where s1: "skip_ws ra = col # rb"
    by (auto split: list.splits)
  from "6.prems"(1) s q pc s1 have col: "col = CHR '':''" by (auto split: if_splits)
  from "6.prems"(1) s q pc s1 col obtain v rc where pv: "parse_value m rb = Some (v, rc)"
    by (auto split: option.splits)
  from "6.prems"(1) s q pc s1 col pv obtain d rd where s2: "skip_ws rc = d # rd"
    by (auto split: list.splits)
  have lb: "length rb < length cs"
    using skip_ws_Cons_length [OF s] parse_chars_length [OF pc] skip_ws_Cons_length [OF s1]
    by simp
  have lc: "length rc < length rb"
    using pv by (rule parse_consumes)
  have ld: "length rd < length rc"
    using s2 by (rule skip_ws_Cons_length)
  have "length r2 < length cs"
    using "6.prems"(1) by (rule parse_consumes)
  with "6.prems"(2) obtain n' where n: "n2 = Suc n'"
    by (cases n2) auto
  show ?case
  proof (cases "d = CHR '',''")
    case True
    with "6.prems"(1) s q pc s1 col pv s2 obtain kvs'
      where pm: "parse_members m rd = Some (kvs', r2)" and kvs: "kvs = (k, v) # kvs'"
      by (auto simp: cons_fst_Some)
    have l2: "length r2 < length rd"
      using pm by (rule parse_consumes)
    have "length rb - length rc \<le> n'"
      using "6.prems"(2) lb lc ld l2 n by simp
    from "6.IH"(1) [OF s _ pc refl s1 _ pv this] q col
    have pv': "parse_value n' rb = Some (v, rc)" by simp
    have "length rd - length r2 \<le> n'"
      using "6.prems"(2) lb lc ld l2 n by simp
    from "6.IH"(2) [OF s _ pc refl s1 _ pv refl s2 True pm this] q col
    have "parse_members n' rd = Some (kvs', r2)" by simp
    with pv' s q pc s1 col s2 True kvs n show ?thesis
      by (simp add: cons_fst_def)
  next
    case False
    with "6.prems"(1) s q pc s1 col pv s2
    have r2: "r2 = rd" and d: "d = CHR ''}''" and kvs: "kvs = [(k, v)]"
      by (auto split: if_splits)
    have "length rb - length rc \<le> n'"
      using "6.prems"(2) lb lc ld r2 n by simp
    from "6.IH"(1) [OF s _ pc refl s1 _ pv this] q col
    have "parse_value n' rb = Some (v, rc)" by simp
    with s q pc s1 col s2 r2 d kvs n show ?thesis by simp
  qed
qed

lemma JSON_parse_bound:
  "JSON_parse txt = Some v \<longleftrightarrow> (\<exists>m r. parse_value m txt = Some (v, r) \<and> skip_ws r = [])"
proof
  assume "JSON_parse txt = Some v"
  then obtain r where "parse_value (Suc (length txt)) txt = Some (v, r)" and "skip_ws r = []"
    by (auto simp: JSON_parse_def simp del: parse_value.simps split: option.splits if_splits)
  then show "\<exists>m r. parse_value m txt = Some (v, r) \<and> skip_ws r = []"
    by blast
next
  assume "\<exists>m r. parse_value m txt = Some (v, r) \<and> skip_ws r = []"
  then obtain m r where p: "parse_value m txt = Some (v, r)" and e: "skip_ws r = []"
    by blast
  have "parse_value (Suc (length txt)) txt = Some (v, r)"
    using p by (rule parse_fuel) simp
  with e show "JSON_parse txt = Some v"
    by (simp add: JSON_parse_def)
qed

subsection \<open>Plain data survive the codec\<close>

text \<open>Numbers first, then string literals, then values by induction on their structure:
  what \<open>JSON_stringify\<close> writes for a plain value, \<open>JSON_parse\<close> reads back as that
  value.\<close>

lemma digit_char_is_digit: "d < 10 \<Longrightarrow> is_digit (digit_char d)"
proof -
  assume "d < 10"
  then have "d = 0 \<or> d = 1 \<or> d = 2 \<or> d = 3 \<or> d = 4 \<or> d = 5 \<or> d = 6 \<or> d = 7
    \<or> d = 8 \<or> d = 9"
    by presburger
  then show ?thesis
    by (elim disjE) (simp_all add: digit_char_def is_digit_def code_unit_def)
qed

lemma digit_char_value: "d < 10 \<Longrightarrow> code_unit (digit_char d) - 48 = d"
proof -
  assume "d < 10"
  then have "d = 0 \<or> d = 1 \<or> d = 2 \<or> d = 3 \<or> d = 4 \<or> d = 5 \<or> d = 6 \<or> d = 7
    \<or> d = 8 \<or> d = 9"
    by presburger
  then show ?thesis
    by (elim disjE) (simp_all add: digit_char_def code_unit_def)
qed

lemma digit_char_zero: "d < 10 \<Longrightarrow> digit_char d = CHR ''0'' \<longleftrightarrow> d = 0"
proof -
  assume "d < 10"
  then have "d = 0 \<or> d = 1 \<or> d = 2 \<or> d = 3 \<or> d = 4 \<or> d = 5 \<or> d = 6 \<or> d = 7
    \<or> d = 8 \<or> d = 9"
    by presburger
  then show ?thesis
    by (elim disjE) (simp_all add: digit_char_def)
qed

lemma nat_digits_digits: "\<forall>c \<in> set (nat_digits n). is_digit c"
proof (induction n rule: nat_digits.induct)
  case (1 n)
  then show ?case
    by (subst nat_digits.simps) (auto simp: digit_char_is_digit)
qed

lemma nat_digits_not_Nil: "nat_digits n \<noteq> []"
  by (subst nat_digits.simps) simp

lemma nat_digits_value: "foldl (\<lambda>a d. 10 * a + (code_unit d - 48)) 0 (nat_digits n) = n"
proof (induction n rule: nat_digits.induct)
  case (1 n)
  show ?case
  proof (cases "n < 10")
    case True
    then show ?thesis
      by (subst nat_digits.simps) (simp add: digit_char_value)
  next
    case False
    with 1 show ?thesis
      by (subst nat_digits.simps) (simp add: digit_char_value)
  qed
qed

lemma nat_digits_leading: "hd (nat_digits n) = CHR ''0'' \<Longrightarrow> tl (nat_digits n) = []"
proof (induction n rule: nat_digits.induct)
  case (1 n)
  show ?case
  proof (cases "n < 10")
    case True
    then show ?thesis
      by (subst nat_digits.simps) simp
  next
    case False
    then have ih: "hd (nat_digits (n div 10)) = CHR ''0'' \<Longrightarrow> tl (nat_digits (n div 10)) = []"
      using 1 by simp
    from False have e: "nat_digits n = nat_digits (n div 10) @ [digit_char (n mod 10)]"
      by (subst nat_digits.simps) simp
    with "1.prems" nat_digits_not_Nil [of "n div 10"]
    have h: "hd (nat_digits (n div 10)) = CHR ''0''"
      by simp
    from ih [OF h] nat_digits_not_Nil [of "n div 10"] h
    have "nat_digits (n div 10) = ''0''"
      by (cases "nat_digits (n div 10)") auto
    then have "foldl (\<lambda>a d. 10 * a + (code_unit d - 48)) 0 (nat_digits (n div 10)) = 0"
      by (simp add: code_unit_def)
    then have "n div 10 = 0"
      by (simp add: nat_digits_value)
    with False show ?thesis by simp
  qed
qed

lemma parse_nat_nat_digits:
  assumes "rest = [] \<or> \<not> is_digit (hd rest)"
  shows "parse_nat (nat_digits n @ rest) = Some (n, rest)"
proof -
  have t: "takeWhile is_digit (nat_digits n @ rest) = nat_digits n"
    using assms nat_digits_digits [of n] by (cases rest) (auto simp: takeWhile_append2)
  have d: "dropWhile is_digit (nat_digits n @ rest) = rest"
    using assms nat_digits_digits [of n] by (cases rest) (auto simp: dropWhile_append2)
  show ?thesis
    using nat_digits_not_Nil [of n] nat_digits_leading [of n]
    by (auto simp: parse_nat_def Let_def t d nat_digits_value)
qed

lemma hex_val_digit_char: "d < 16 \<Longrightarrow> hex_val (digit_char d) = Some d"
proof -
  assume "d < 16"
  then have "d = 0 \<or> d = 1 \<or> d = 2 \<or> d = 3 \<or> d = 4 \<or> d = 5 \<or> d = 6 \<or> d = 7
    \<or> d = 8 \<or> d = 9 \<or> d = 10 \<or> d = 11 \<or> d = 12 \<or> d = 13 \<or> d = 14 \<or> d = 15"
    by presburger
  then show ?thesis
    by (elim disjE) (simp_all add: digit_char_def hex_val_def code_unit_def)
qed

lemma unicode_escape_control:
  assumes "code_unit c < 32"
  shows "unicode_escape CHR ''0'' CHR ''0'' (digit_char (code_unit c div 16))
           (digit_char (code_unit c mod 16)) = Some c"
proof -
  have z: "hex_val CHR ''0'' = Some 0"
    by (simp add: hex_val_def code_unit_def)
  have h1: "hex_val (digit_char (code_unit c div 16)) = Some (code_unit c div 16)"
    using assms by (intro hex_val_digit_char) simp
  have h0: "hex_val (digit_char (code_unit c mod 16)) = Some (code_unit c mod 16)"
    by (intro hex_val_digit_char) simp
  have "char_of (16 * (code_unit c div 16) + code_unit c mod 16) = c"
    by (simp add: code_unit_def)
  then show ?thesis
    by (simp add: unicode_escape_def z h1 h0)
qed

lemma parse_chars_escape_char:
  "parse_chars (escape_char c @ cs) = cons_fst c (parse_chars cs)"
proof -
  consider (quote) "c = CHR 0x22" | (backslash) "c = CHR 0x5C" | (b) "c = CHR 0x08"
    | (f) "c = CHR 0x0C" | (n) "c = CHR 0x0A" | (r) "c = CHR 0x0D" | (t) "c = CHR 0x09"
    | (control) "c \<noteq> CHR 0x22" "c \<noteq> CHR 0x5C" "c \<noteq> CHR 0x08" "c \<noteq> CHR 0x0C" "c \<noteq> CHR 0x0A"
        "c \<noteq> CHR 0x0D" "c \<noteq> CHR 0x09" "code_unit c < 32"
    | (plain) "c \<noteq> CHR 0x22" "c \<noteq> CHR 0x5C" "c \<noteq> CHR 0x08" "c \<noteq> CHR 0x0C" "c \<noteq> CHR 0x0A"
        "c \<noteq> CHR 0x0D" "c \<noteq> CHR 0x09" "\<not> code_unit c < 32"
    by blast
  then show ?thesis
  proof cases
    case control
    then show ?thesis
      by (simp add: escape_char_def unicode_escape_control)
  next
    case plain
    then show ?thesis
      by (simp add: escape_char_def)
  qed (simp_all add: escape_char_def unescape_def)
qed

lemma parse_chars_quote:
  "parse_chars (concat (map escape_char s) @ CHR 0x22 # rest) = Some (s, rest)"
  by (induction s) (simp_all add: parse_chars_escape_char cons_fst_def)

lemma is_digit_not_special:
  "is_digit c \<Longrightarrow> \<not> is_ws c \<and> c \<noteq> CHR ''['' \<and> c \<noteq> CHR ''{'' \<and> c \<noteq> CHR '']'' \<and> c \<noteq> CHR ''}''
     \<and> c \<noteq> CHR ''n'' \<and> c \<noteq> CHR ''t'' \<and> c \<noteq> CHR ''f'' \<and> c \<noteq> CHR 0x22 \<and> c \<noteq> CHR ''-''"
  by (auto simp: is_digit_def is_ws_def code_unit_def)

lemma skip_ws_no_ws: "\<not> is_ws c \<Longrightarrow> skip_ws (c # cs) = c # cs"
  by (simp add: skip_ws_def)

lemma hd_nat_digits_is_digit: "is_digit (hd (nat_digits n))"
  using nat_digits_digits [of n] nat_digits_not_Nil [of n] by (cases "nat_digits n") auto

lemma parse_atom_JNum:
  assumes "rest = [] \<or> \<not> is_digit (hd rest)"
  shows "parse_atom (show_int i @ rest) = Some (JNum i, rest)"
proof (cases "i < 0")
  case True
  then show ?thesis
    using parse_nat_nat_digits [OF assms, of "nat (- i)"]
    by (simp add: show_int_def parse_atom_def)
next
  case False
  obtain c ds where e: "nat_digits (nat i) = c # ds"
    using nat_digits_not_Nil [of "nat i"] by (cases "nat_digits (nat i)") auto
  then have d: "is_digit c"
    using hd_nat_digits_is_digit [of "nat i"] by simp
  have "parse_nat (c # ds @ rest) = Some (nat i, rest)"
    using parse_nat_nat_digits [OF assms, of "nat i"] e by simp
  with False e d is_digit_not_special [OF d] show ?thesis
    by (simp add: show_int_def parse_atom_def)
qed

lemma parse_atom_JStr: "parse_atom (quote s @ rest) = Some (JStr s, rest)"
  by (simp add: quote_def parse_atom_def parse_chars_quote)

lemma parse_atom_literals:
  "parse_atom (''null'' @ rest) = Some (JNull, rest)"
  "parse_atom (''true'' @ rest) = Some (JBool True, rest)"
  "parse_atom (''false'' @ rest) = Some (JBool False, rest)"
  by (simp_all add: parse_atom_def strip_prefix_def)

lemma value_start_stringify: "plain v \<Longrightarrow> JSON_stringify v = Some t \<Longrightarrow> value_start t"
proof (cases v)
  case (JNum i)
  assume "JSON_stringify v = Some t"
  with JNum have t: "t = show_int i" by simp
  show ?thesis
  proof (cases "i < 0")
    case True
    with t show ?thesis by (simp add: value_start_def show_int_def is_ws_def)
  next
    case False
    with t hd_nat_digits_is_digit [of "nat i"] nat_digits_not_Nil [of "nat i"]
      is_digit_not_special [of "hd (nat_digits (nat i))"]
    show ?thesis by (simp add: value_start_def show_int_def)
  qed
qed (auto simp: value_start_def is_ws_def quote_def split: if_splits)

lemma plain_stringify: "plain v \<Longrightarrow> \<exists>t. JSON_stringify v = Some t"
  by (cases v) simp_all

lemma join_Cons2: "ts \<noteq> [] \<Longrightarrow> join (t # ts) = t @ CHR '','' # join ts"
  by (cases ts) simp_all

lemma stringify_elements_Nil: "stringify_elements xs = [] \<longleftrightarrow> xs = []"
  by (cases xs) simp_all

lemma stringify_members_Nil: "plain_members kvs \<Longrightarrow> stringify_members kvs = [] \<longleftrightarrow> kvs = []"
proof (cases kvs)
  case Nil
  then show ?thesis by simp
next
  case (Cons p ps)
  assume "plain_members kvs"
  with Cons obtain k v where p: "p = (k, v)" and "plain v"
    by (cases p) auto
  then obtain t where "JSON_stringify v = Some t"
    using plain_stringify by blast
  with Cons p show ?thesis by simp
qed

lemma set_member_fresh: "k \<notin> fst ` set acc \<Longrightarrow> set_member k v acc = acc @ [(k, v)]"
  by (induction acc) auto

lemma foldl_set_member_distinct:
  "distinct (map fst (acc @ kvs)) \<Longrightarrow>
   foldl (\<lambda>acc (k, v). set_member k v acc) acc kvs = acc @ kvs"
proof (induction kvs arbitrary: acc)
  case Nil
  then show ?case by simp
next
  case (Cons p kvs)
  obtain k v where p: "p = (k, v)" by (cases p)
  from Cons.prems p have fresh: "k \<notin> fst ` set acc"
    by auto
  from Cons.prems p have "distinct (map fst ((acc @ [(k, v)]) @ kvs))"
    by simp
  from Cons.IH [OF this] fresh p show ?case
    by (simp add: set_member_fresh)
qed

lemma object_of_distinct: "distinct (map fst kvs) \<Longrightarrow> object_of kvs = JObj kvs"
  using foldl_set_member_distinct [of "[]" kvs] by (simp add: object_of_def)

lemma parse_value_atom:
  assumes "parse_atom (t @ rest) = Some (v, rest)"
    and "value_start t" and "hd t \<noteq> CHR ''[''" and "hd t \<noteq> CHR ''{''"
  shows "parse_value (Suc n) (t @ rest) = Some (v, rest)"
proof -
  from assms(2) obtain c t' where t: "t = c # t'" and ws: "\<not> is_ws c"
    by (cases t) (auto simp: value_start_def)
  with assms show ?thesis
    by (simp add: skip_ws_no_ws)
qed

lemma elements_start:
  assumes "plain_elements xs" and "xs \<noteq> []"
  shows "\<exists>c cs. join (stringify_elements xs) @ suffix = c # cs \<and> \<not> is_ws c \<and> c \<noteq> CHR '']''"
proof -
  from assms obtain x xs' where xs: "xs = x # xs'" and "plain x"
    by (cases xs) auto
  then obtain t where t: "JSON_stringify x = Some t"
    using plain_stringify by blast
  with \<open>plain x\<close> have "value_start t"
    by (rule value_start_stringify)
  then obtain c t' where "t = c # t'" and "\<not> is_ws c" and "c \<noteq> CHR '']''"
    by (cases t) (auto simp: value_start_def)
  with xs t show ?thesis
    by (cases "stringify_elements xs'") auto
qed

lemma members_start:
  assumes "plain_members kvs" and "kvs \<noteq> []"
  shows "\<exists>cs. join (stringify_members kvs) @ suffix = CHR 0x22 # cs"
proof -
  from assms obtain k v kvs' where kvs: "kvs = (k, v) # kvs'" and "plain v"
    by (cases kvs) auto
  then obtain t where t: "JSON_stringify v = Some t"
    using plain_stringify by blast
  with kvs show ?thesis
    by (cases "stringify_members kvs'") (auto simp: quote_def)
qed

lemma not_ws_special:
  "\<not> is_ws CHR ''[''" "\<not> is_ws CHR ''{''" "\<not> is_ws CHR '']''" "\<not> is_ws CHR ''}''"
  "\<not> is_ws CHR '',''" "\<not> is_ws CHR '':''" "\<not> is_ws CHR 0x22"
  "\<not> is_digit CHR '',''" "\<not> is_digit CHR '']''" "\<not> is_digit CHR ''}''"
  by (simp_all add: is_ws_def is_digit_def code_unit_def)

lemma parse_stringify:
  "plain v \<Longrightarrow> rest = [] \<or> \<not> is_digit (hd rest) \<Longrightarrow>
     \<exists>t m. JSON_stringify v = Some t \<and> parse_value m (t @ rest) = Some (v, rest)"
  "plain_elements xs \<Longrightarrow> xs \<noteq> [] \<Longrightarrow>
     \<exists>m. parse_elements m (join (stringify_elements xs) @ CHR '']'' # rest1) = Some (xs, rest1)"
  "plain_members kvs \<Longrightarrow> kvs \<noteq> [] \<Longrightarrow>
     \<exists>m. parse_members m (join (stringify_members kvs) @ CHR ''}'' # rest2) = Some (kvs, rest2)"
proof (induction v and xs and kvs arbitrary: rest and rest1 and rest2
    rule: plain_plain_elements_plain_members.induct)
  case 1
  then show ?case by simp
next
  case 2
  have "parse_value (Suc 0) (''null'' @ rest) = Some (JNull, rest)"
    by (rule parse_value_atom [OF parse_atom_literals(1)]) (simp_all add: value_start_def is_ws_def)
  then show ?case by (auto simp del: parse_value.simps)
next
  case (3 b)
  have "parse_atom ((if b then ''true'' else ''false'') @ rest) = Some (JBool b, rest)"
    using parse_atom_literals(2,3) [of rest] by (cases b) simp_all
  then have "parse_value (Suc 0) ((if b then ''true'' else ''false'') @ rest) = Some (JBool b, rest)"
    by (rule parse_value_atom) (simp_all add: value_start_def is_ws_def)
  then show ?case by (auto simp del: parse_value.simps)
next
  case (4 n)
  have s: "value_start (show_int n)"
    by (rule value_start_stringify [of "JNum n"]) simp_all
  have h: "hd (show_int n) \<noteq> CHR ''['' \<and> hd (show_int n) \<noteq> CHR ''{''"
    using hd_nat_digits_is_digit [of "nat n"] is_digit_not_special [of "hd (nat_digits (nat n))"]
    by (simp add: show_int_def)
  have "parse_value (Suc 0) (show_int n @ rest) = Some (JNum n, rest)"
    using "4.prems"(2) s h by (intro parse_value_atom parse_atom_JNum) simp_all
  then show ?case by (auto simp del: parse_value.simps)
next
  case (5 s)
  have "parse_value (Suc 0) (quote s @ rest) = Some (JStr s, rest)"
    by (rule parse_value_atom [OF parse_atom_JStr]) (simp_all add: value_start_def quote_def is_ws_def)
  then show ?case by (auto simp del: parse_value.simps)
next
  case (6 xs)
  show ?case
  proof (cases "xs = []")
    case True
    have "parse_value (Suc 0) (''[]'' @ rest) = Some (JArr [], rest)"
      by (simp add: skip_ws_no_ws not_ws_special)
    with True show ?thesis by (auto simp del: parse_value.simps)
  next
    case False
    from "6.prems"(1) have p: "plain_elements xs" by simp
    from "6.IH" [OF p False] obtain m
      where m: "parse_elements m (join (stringify_elements xs) @ CHR '']'' # rest) = Some (xs, rest)"
      by blast
    from elements_start [OF p False] obtain c cs
      where c: "join (stringify_elements xs) @ CHR '']'' # rest = c # cs"
        and "\<not> is_ws c" and "c \<noteq> CHR '']''"
      by blast
    then have "parse_value (Suc m) (CHR ''['' # join (stringify_elements xs) @ CHR '']'' # rest)
        = Some (JArr xs, rest)"
      using m by (simp add: skip_ws_no_ws not_ws_special)
    then show ?thesis by (auto simp del: parse_value.simps)
  qed
next
  case (7 kvs)
  from "7.prems"(1) have p: "plain_members kvs" and d: "distinct (map fst kvs)"
    by simp_all
  show ?case
  proof (cases "kvs = []")
    case True
    have "parse_value (Suc 0) (''{}'' @ rest) = Some (JObj [], rest)"
      by (simp add: skip_ws_no_ws not_ws_special)
    with True show ?thesis by (auto simp del: parse_value.simps)
  next
    case False
    from "7.IH" [OF p False] obtain m
      where m: "parse_members m (join (stringify_members kvs) @ CHR ''}'' # rest) = Some (kvs, rest)"
      by blast
    from members_start [OF p False] obtain cs
      where c: "join (stringify_members kvs) @ CHR ''}'' # rest = CHR 0x22 # cs"
      by blast
    then have "parse_value (Suc m) (CHR ''{'' # join (stringify_members kvs) @ CHR ''}'' # rest)
        = Some (JObj kvs, rest)"
      using m by (simp add: skip_ws_no_ws not_ws_special object_of_distinct [OF d])
    then show ?thesis by (auto simp del: parse_value.simps)
  qed
next
  case 8
  then show ?case by simp
next
  case (9 x xs)
  from "9.prems"(1) have px: "plain x" and pxs: "plain_elements xs"
    by simp_all
  define R where "R = (if xs = [] then CHR '']'' # rest1
    else CHR '','' # join (stringify_elements xs) @ CHR '']'' # rest1)"
  have "R = [] \<or> \<not> is_digit (hd R)"
    by (simp add: R_def not_ws_special)
  from "9.IH"(1) [OF px this] obtain t m
    where t: "JSON_stringify x = Some t" and m: "parse_value m (t @ R) = Some (x, R)"
    by blast
  have whole: "join (stringify_elements (x # xs)) @ CHR '']'' # rest1 = t @ R"
    using t by (simp add: R_def join_Cons2 stringify_elements_Nil)
  define N where "N = length (t @ R)"
  have pv: "parse_value N (t @ R) = Some (x, R)"
    using m by (rule parse_fuel) (simp add: N_def)
  show ?case
  proof (cases "xs = []")
    case True
    then have "parse_elements (Suc N) (t @ R) = Some ([x], rest1)"
      using pv by (simp add: R_def skip_ws_no_ws not_ws_special)
    with True whole show ?thesis by metis
  next
    case False
    from "9.IH"(2) [OF pxs False] obtain m2
      where "parse_elements m2 (join (stringify_elements xs) @ CHR '']'' # rest1) = Some (xs, rest1)"
      by blast
    then have "parse_elements N (join (stringify_elements xs) @ CHR '']'' # rest1) = Some (xs, rest1)"
      by (rule parse_fuel) (simp add: N_def R_def False)
    with False have "parse_elements (Suc N) (t @ R) = Some (x # xs, rest1)"
      using pv by (simp add: R_def skip_ws_no_ws not_ws_special cons_fst_def)
    with whole show ?thesis by metis
  qed
next
  case 10
  then show ?case by simp
next
  case (11 k v kvs)
  from "11.prems"(1) have pv: "plain v" and pkvs: "plain_members kvs"
    by simp_all
  define R where "R = (if kvs = [] then CHR ''}'' # rest2
    else CHR '','' # join (stringify_members kvs) @ CHR ''}'' # rest2)"
  have "R = [] \<or> \<not> is_digit (hd R)"
    by (simp add: R_def not_ws_special)
  from "11.IH"(1) [OF pv this] obtain t m
    where t: "JSON_stringify v = Some t" and m: "parse_value m (t @ R) = Some (v, R)"
    by blast
  have whole: "join (stringify_members ((k, v) # kvs)) @ CHR ''}'' # rest2
      = CHR 0x22 # concat (map escape_char k) @ CHR 0x22 # CHR '':'' # t @ R"
    using t pkvs by (simp add: R_def join_Cons2 stringify_members_Nil quote_def)
  define N where "N = length (t @ R)"
  have pvN: "parse_value N (t @ R) = Some (v, R)"
    using m by (rule parse_fuel) (simp add: N_def)
  have pc: "parse_chars (concat (map escape_char k) @ CHR 0x22 # CHR '':'' # t @ R)
      = Some (k, CHR '':'' # t @ R)"
    by (rule parse_chars_quote)
  show ?case
  proof (cases "kvs = []")
    case True
    then have "parse_members (Suc N)
        (CHR 0x22 # concat (map escape_char k) @ CHR 0x22 # CHR '':'' # t @ R)
        = Some ([(k, v)], rest2)"
      using pvN pc by (simp add: R_def skip_ws_no_ws not_ws_special)
    with True whole show ?thesis by metis
  next
    case False
    from "11.IH"(2) [OF pkvs False] obtain m2
      where "parse_members m2 (join (stringify_members kvs) @ CHR ''}'' # rest2) = Some (kvs, rest2)"
      by blast
    then have "parse_members N (join (stringify_members kvs) @ CHR ''}'' # rest2) = Some (kvs, rest2)"
      by (rule parse_fuel) (simp add: N_def R_def False)
    with False have "parse_members (Suc N)
        (CHR 0x22 # concat (map escape_char k) @ CHR 0x22 # CHR '':'' # t @ R)
        = Some ((k, v) # kvs, rest2)"
      using pvN pc by (simp add: R_def skip_ws_no_ws not_ws_special cons_fst_def)
    with whole show ?thesis by metis
  qed
qed

text \<open>Plain data survives \<^verbatim>\<open>JSON.stringify\<close> followed by \<^verbatim>\<open>JSON.parse\<close>.\<close>

lemma JSON_roundtrip:
  assumes "plain v"
  shows "\<exists>t. JSON_stringify v = Some t \<and> JSON_parse t = Some v"
proof -
  from parse_stringify(1) [OF assms, of "[]"] obtain t m
    where t: "JSON_stringify v = Some t" and m: "parse_value m t = Some (v, [])"
    by auto
  have "skip_ws [] = []"
    by (simp add: skip_ws_def)
  with m have "JSON_parse t = Some v"
    unfolding JSON_parse_bound by blast
  with t show ?thesis by blast
qed

text \<open>In particular the record that \<^verbatim>\<open>SaveItemWithExpiration\<close> writes for a plain value
  decodes to that record.\<close>

lemma expiring_entry_decodes:
  assumes "plain v"
  shows "JSON_parse (DOMString (JSON_stringify (JObj [(''value'', v), (''expires'', JNum e)])))
    = Some (JObj [(''value'', v), (''expires'', JNum e)])"
proof -
  have "plain (JObj [(''value'', v), (''expires'', JNum e)])"
    using assms by simp
  from JSON_roundtrip [OF this] show ?thesis
    by (auto simp: DOMString_def simp del: JSON_stringify.simps)
qed

subsection \<open>Storage and the operations\<close>

lemma backend_put_backend: "backend this (put_backend this s w) = s"
  by (simp add: backend_def put_backend_def)

lemma backend_now_update: "backend this (w\<lparr>now := t\<rparr>) = backend this w"
  by (simp add: backend_def)


lemma opt_member_not_nullish: "opt_member item name = JNum e \<Longrightarrow> \<not> nullish item"
  by (auto simp: opt_member_def split: if_splits)

lemma member_not_nullish: "\<not> nullish item \<Longrightarrow> member item name = Inr (own_prop item name)"
  by (simp add: member_def)

lemma localStorage_SaveItemWithExpiration:
  "browser w \<Longrightarrow> storage this = Local \<Longrightarrow>
   localStorage (SaveItemWithExpiration this key item w) =
     (localStorage w)(key \<mapsto> DOMString (JSON_stringify
        (JObj [(''value'', value item),
               (''expires'', JNum (creationDate (expires item) + expiresIn (expires item)))])))"
  by (simp add: SaveItemWithExpiration_def backend_def put_backend_def setItem_def
      Let_def del: JSON_stringify.simps)

lemma sessionStorage_SaveItemWithExpiration:
  "storage this = Local \<Longrightarrow>
   sessionStorage (SaveItemWithExpiration this key item w) = sessionStorage w"
  by (simp add: SaveItemWithExpiration_def backend_def put_backend_def Let_def)

lemma browser_SaveItemWithExpiration:
  "browser (SaveItemWithExpiration this key item w) = browser w"
  by (simp add: SaveItemWithExpiration_def put_backend_def Let_def)




lemma browser_SaveUserSession:
  "browser (SaveUserSession loaded generateRandomToken user rememberMe w) = browser w"
  by (simp add: SaveUserSession_def Let_def browser_SaveItemWithExpiration SaveItem_def
      put_backend_def)

text \<open>The durable area after \<^verbatim>\<open>SaveUserSession\<close>: four entries, and a fifth when
  \<open>rememberMe\<close> holds.\<close>

lemma localStorage_SaveUserSession:
  "browser w \<Longrightarrow>
   localStorage (SaveUserSession loaded generateRandomToken user rememberMe w) =
     (let e = JNum (creationDate (DefaultExpiration loaded) + expiresIn (DefaultExpiration loaded));
          entry = (\<lambda>v. DOMString (JSON_stringify (JObj [(''value'', JStr v), (''expires'', e)])));
          m = (localStorage w)
                (''name'' \<mapsto> entry (firstName user @ '' '' @ lastName user),
                 ''username'' \<mapsto> entry (username user),
                 ''token'' \<mapsto> entry (token user),
                 ''selector'' \<mapsto> entry (generateRandomToken 12))
      in if rememberMe then m(''validator'' \<mapsto> entry (generateRandomToken 32)) else m)"
  by (simp add: SaveUserSession_def Let_def localStorage_SaveItemWithExpiration
      browser_SaveItemWithExpiration SaveItem_def new_StorageAPI_def backend_def put_backend_def
      del: JSON_stringify.simps)

lemma sessionStorage_SaveUserSession:
  "browser w \<Longrightarrow>
   sessionStorage (SaveUserSession loaded generateRandomToken user rememberMe w) =
     (if rememberMe then sessionStorage w
      else (sessionStorage w)
             (''validator'' \<mapsto> DOMString (JSON_stringify (JStr (generateRandomToken 32)))))"
  by (simp add: SaveUserSession_def Let_def sessionStorage_SaveItemWithExpiration
      browser_SaveItemWithExpiration SaveItem_def new_StorageAPI_def backend_def put_backend_def
      setItem_def del: JSON_stringify.simps)

section \<open>The claims\<close>

subsection \<open>C1: the expiration timestamp written by SaveItemWithExpiration\<close>

text \<open>
  C1 states that \<^verbatim>\<open>SaveItemWithExpiration\<close> stores
  \<open>expires = creationInstant + expiresInSeconds * 1000\<close>. The code adds \<^verbatim>\<open>expiresIn\<close> to
  \<^verbatim>\<open>creationDate.getTime()\<close> unscaled. Evaluated at key \<open>x\<close>, value 42, creation instant
  1000 ms and \<open>expiresIn = 10\<close>: the entry written is \<^verbatim>\<open>{"value":42,"expires":1010}\<close>,
  where the claimed record is \<^verbatim>\<open>{"value":42,"expires":11000}\<close>; read five seconds after
  its creation the entry has already expired.
\<close>

theorem C1_code_at_failing_input:
  \<open>localStorage (SaveItemWithExpiration (new_StorageAPI None) ''x''
       \<lparr>value = JNum 42, expires = \<lparr>creationDate = 1000, expiresIn = 10\<rparr>\<rparr>
       (fresh_world True 1000)) ''x''
     = Some ''{"value":42,"expires":1010}''
   \<and> JSON_stringify (JObj [(''value'', JNum 42), (''expires'', JNum (1000 + 10 * 1000))])
     = Some ''{"value":42,"expires":11000}''
   \<and> localStorage (SaveItemWithExpiration (new_StorageAPI None) ''x''
       \<lparr>value = JNum 42, expires = \<lparr>creationDate = 1000, expiresIn = 10\<rparr>\<rparr>
       (fresh_world True 1000)) ''x''
     \<noteq> JSON_stringify (JObj [(''value'', JNum 42), (''expires'', JNum (1000 + 10 * 1000))])
   \<and> fst (GetItem (new_StorageAPI None) ''x''
        ((SaveItemWithExpiration (new_StorageAPI None) ''x''
           \<lparr>value = JNum 42, expires = \<lparr>creationDate = 1000, expiresIn = 10\<rparr>\<rparr>
           (fresh_world True 1000))\<lparr>now := 1000 + 5000\<rparr>))
     = Inr JNull\<close>
  by (simp add: SaveItemWithExpiration_def GetItem_def storage_eval stringify_eval parse_eval
      member_eval)

subsection \<open>C2: SaveItem followed by GetItem\<close>

text \<open>
  C2 states that \<^verbatim>\<open>SaveItem(k, v)\<close> followed by \<^verbatim>\<open>GetItem(k)\<close> returns \<open>v\<close>, the
  record \<^verbatim>\<open>{value}\<close> being serialized. The code serializes \<^verbatim>\<open>item.value\<close> alone, and
  \<^verbatim>\<open>GetItem\<close> reads the property \<^verbatim>\<open>value\<close> of what it decodes. Evaluated at the value 5:
  the text stored is \<^verbatim>\<open>5\<close>, not \<^verbatim>\<open>{"value":5}\<close>, and \<^verbatim>\<open>GetItem\<close> returns
  \<^verbatim>\<open>undefined\<close>; at the value \<^verbatim>\<open>null\<close>, \<^verbatim>\<open>GetItem\<close> throws a TypeError.
\<close>

theorem C2_code_at_failing_input:
  \<open>localStorage (SaveItem (new_StorageAPI None) ''k'' \<lparr>value = JNum 5\<rparr> (fresh_world True 0)) ''k''
     = Some ''5''
   \<and> JSON_stringify (JObj [(''value'', JNum 5)]) = Some ''{"value":5}''
   \<and> fst (GetItem (new_StorageAPI None) ''k''
        (SaveItem (new_StorageAPI None) ''k'' \<lparr>value = JNum 5\<rparr> (fresh_world True 0)))
     = Inr JUndefined
   \<and> fst (GetItem (new_StorageAPI None) ''k''
        (SaveItem (new_StorageAPI None) ''k'' \<lparr>value = JNull\<rparr> (fresh_world True 0)))
     = Inl TypeError\<close>
  by (simp add: SaveItem_def GetItem_def storage_eval stringify_eval parse_eval member_eval)

subsection \<open>C3: an expired entry is reported absent and evicted\<close>

text \<open>
  C3 states that for every key holding an expiring entry whose expiration instant is
  strictly in the past at read time, \<^verbatim>\<open>GetItem\<close> returns \<^verbatim>\<open>null\<close> and removes the key,
  so that \<^verbatim>\<open>Contains\<close> is false afterwards. Counterexample: the entry written for
  creation instant \<open>-1000\<close> and \<open>expiresIn = 1000\<close> has \<open>expires = 0\<close>; read at instant
  5000, after its expiration instant, \<^verbatim>\<open>GetItem\<close> returns the value 42 and the key stays:
  the guard \<^verbatim>\<open>if (item?.expires)\<close> takes the timestamp 0 for no timestamp.
\<close>

theorem C3_counterexample:
  \<open>localStorage (SaveItemWithExpiration (new_StorageAPI None) ''k''
       \<lparr>value = JNum 42, expires = \<lparr>creationDate = - 1000, expiresIn = 1000\<rparr>\<rparr>
       (fresh_world True 5000)) ''k''
     = Some ''{"value":42,"expires":0}''
   \<and> (0::int) < now (fresh_world True 5000)
   \<and> fst (GetItem (new_StorageAPI None) ''k''
        (SaveItemWithExpiration (new_StorageAPI None) ''k''
           \<lparr>value = JNum 42, expires = \<lparr>creationDate = - 1000, expiresIn = 1000\<rparr>\<rparr>
           (fresh_world True 5000)))
     = Inr (JNum 42)
   \<and> Contains (new_StorageAPI None) ''k''
        (snd (GetItem (new_StorageAPI None) ''k''
          (SaveItemWithExpiration (new_StorageAPI None) ''k''
             \<lparr>value = JNum 42, expires = \<lparr>creationDate = - 1000, expiresIn = 1000\<rparr>\<rparr>
             (fresh_world True 5000))))\<close>
  by (simp add: SaveItemWithExpiration_def GetItem_def Contains_def storage_eval stringify_eval
      parse_eval member_eval)

text \<open>
  C3 as amended: in a browsing context, for every key whose stored text decodes to a record
  with a numeric \<^verbatim>\<open>expires\<close> other than 0 that is strictly below the current instant,
  \<^verbatim>\<open>GetItem\<close> returns \<^verbatim>\<open>null\<close> and leaves the world with that key removed from the
  wrapper's backend, so that \<^verbatim>\<open>Contains\<close> on the same backend is false afterwards.
\<close>

theorem C3_expired_entry_evicted:
  assumes "browser w"
    and "getItem (backend this w) key = Some stringValue"
    and "JSON_parse stringValue = Some item"
    and "opt_member item ''expires'' = JNum e"
    and "e \<noteq> 0"
    and "e < now w"
  shows "GetItem this key w = (Inr JNull, put_backend this (removeItem (backend this w) key) w)
       \<and> \<not> Contains this key (snd (GetItem this key w))"
proof -
  have ne: "stringValue \<noteq> []"
    using assms(3) JSON_parse_Nil by auto
  have g: "GetItem this key w = (Inr JNull, put_backend this (removeItem (backend this w) key) w)"
    using assms ne by (simp add: GetItem_def)
  show ?thesis
    by (simp add: g Contains_def backend_put_backend getItem_def removeItem_def)
qed

text \<open>Witness for C3 as amended: the entry \<^verbatim>\<open>{"value":42,"expires":10}\<close> read at
  instant 15.\<close>

theorem C3_witness:
  \<open>fst (GetItem (new_StorageAPI None) ''x''
      \<lparr>browser = True, now = 15, localStorage = [''x'' \<mapsto> ''{"value":42,"expires":10}''],
       sessionStorage = Map.empty\<rparr>) = Inr JNull
   \<and> \<not> Contains (new_StorageAPI None) ''x''
      (snd (GetItem (new_StorageAPI None) ''x''
        \<lparr>browser = True, now = 15, localStorage = [''x'' \<mapsto> ''{"value":42,"expires":10}''],
         sessionStorage = Map.empty\<rparr>))\<close>
  using C3_expired_entry_evicted [where
      w = \<open>\<lparr>browser = True, now = 15, localStorage = [''x'' \<mapsto> ''{"value":42,"expires":10}''],
        sessionStorage = Map.empty\<rparr>\<close>
      and this = \<open>new_StorageAPI None\<close> and key = \<open>''x''\<close>
      and stringValue = \<open>''{"value":42,"expires":10}''\<close>
      and item = \<open>JObj [(''value'', JNum 42), (''expires'', JNum 10)]\<close> and e = 10]
  by (simp add: Contains_def storage_eval parse_eval code_unit_def member_eval)

subsection \<open>C4: the expiration descriptor of the session fields\<close>




subsection \<open>C5: the entries written by SaveUserSession\<close>

text \<open>
  C5 states that every entry \<^verbatim>\<open>SaveUserSession\<close> writes to the durable backend carries
  the default one-week expiration. The keys, the values and the choice of backend are as
  the claim says; the expiration is not. Evaluated for Ada Lovelace with \<open>rememberMe\<close>,
  the call made at instant 0 by a module loaded at instant 0: the entry under \<open>name\<close> is
  \<^verbatim>\<open>{"value":"Ada Lovelace","expires":604800}\<close>, where one week after its creation is
  \<^verbatim>\<open>{"value":"Ada Lovelace","expires":604800000}\<close>; read eleven minutes after the call,
  the entry has already expired. The cause is the one of C1: \<^verbatim>\<open>SaveItemWithExpiration\<close>
  adds the 604800 seconds of \<^verbatim>\<open>DefaultExpiration\<close> to a count of milliseconds.
\<close>

theorem C5_code_at_failing_input:
  \<open>localStorage (SaveUserSession 0 sample_token
        \<lparr>firstName = ''Ada'', lastName = ''Lovelace'', username = ''ada'', token = ''tok123''\<rparr>
        True (fresh_world True 0)) ''name''
     = Some ''{"value":"Ada Lovelace","expires":604800}''
   \<and> JSON_stringify (JObj
        [(''value'', JStr ''Ada Lovelace''), (''expires'', JNum (0 + 3600 * (24 * 7) * 1000))])
     = Some ''{"value":"Ada Lovelace","expires":604800000}''
   \<and> localStorage (SaveUserSession 0 sample_token
        \<lparr>firstName = ''Ada'', lastName = ''Lovelace'', username = ''ada'', token = ''tok123''\<rparr>
        True (fresh_world True 0)) ''name''
     \<noteq> JSON_stringify (JObj
        [(''value'', JStr ''Ada Lovelace''), (''expires'', JNum (0 + 3600 * (24 * 7) * 1000))])
   \<and> fst (GetItem (new_StorageAPI None) ''name''
        ((SaveUserSession 0 sample_token
           \<lparr>firstName = ''Ada'', lastName = ''Lovelace'', username = ''ada'', token = ''tok123''\<rparr>
           True (fresh_world True 0))\<lparr>now := 11 * 60 * 1000\<rparr>))
     = Inr JNull\<close>
proof -
  let ?w = \<open>SaveUserSession 0 sample_token
        \<lparr>firstName = ''Ada'', lastName = ''Lovelace'', username = ''ada'', token = ''tok123''\<rparr>
        True (fresh_world True 0)\<close>
  have b: "browser ?w"
    by (simp add: browser_SaveUserSession fresh_world_def)
  have n: \<open>localStorage ?w ''name'' = Some ''{"value":"Ada Lovelace","expires":604800}''\<close>
    by (simp add: localStorage_SaveUserSession fresh_world_def DefaultExpiration_def Let_def
        DOMString_def stringify_eval)
  have c: \<open>JSON_stringify (JObj
        [(''value'', JStr ''Ada Lovelace''), (''expires'', JNum (0 + 3600 * (24 * 7) * 1000))])
     = Some ''{"value":"Ada Lovelace","expires":604800000}''\<close>
    by (simp add: stringify_eval)
  have p: \<open>JSON_parse ''{"value":"Ada Lovelace","expires":604800}''
      = Some (JObj [(''value'', JStr ''Ada Lovelace''), (''expires'', JNum 604800)])\<close>
    by (simp add: parse_eval code_unit_def)
  have g: "fst (GetItem (new_StorageAPI None) ''name'' (?w\<lparr>now := 11 * 60 * 1000\<rparr>)) = Inr JNull"
    using b n p by (simp add: GetItem_def new_StorageAPI_def backend_def getItem_def member_eval)
  show ?thesis
    using n c g by simp
qed

subsection \<open>C6: Contains does not look at the expiration\<close>

text \<open>
  C6: \<^verbatim>\<open>Contains(k)\<close> is true exactly when the selected backend holds a raw entry under
  \<open>k\<close>, whatever that entry says about expiration and whatever the clock reads; in
  particular, in a browsing context it is true right after \<^verbatim>\<open>SaveItemWithExpiration\<close>
  or \<^verbatim>\<open>SaveItem\<close> wrote to \<open>k\<close>, for every item, also one whose expiration instant has
  already passed.
\<close>

theorem C6_contains_ignores_expiration:
  "Contains this key w = (backend this w key \<noteq> None)
   \<and> Contains this key (w\<lparr>now := t\<rparr>) = Contains this key w
   \<and> (browser w \<longrightarrow> Contains this key (SaveItemWithExpiration this key item w))
   \<and> (browser w \<longrightarrow> Contains this key (SaveItem this key item' w))"
  by (simp add: Contains_def SaveItemWithExpiration_def SaveItem_def Let_def backend_put_backend
      backend_now_update getItem_def setItem_def)

text \<open>Witness for C6: an entry saved at instant 5000 with expiration instant 10.\<close>

theorem C6_witness:
  \<open>browser (fresh_world True 5000)
   \<and> creationDate \<lparr>creationDate = 0, expiresIn = 10\<rparr> + expiresIn \<lparr>creationDate = 0, expiresIn = 10\<rparr>
       < now (fresh_world True 5000)
   \<and> Contains (new_StorageAPI None) ''k''
        (SaveItemWithExpiration (new_StorageAPI None) ''k''
          \<lparr>value = JNum 42, expires = \<lparr>creationDate = 0, expiresIn = 10\<rparr>\<rparr> (fresh_world True 5000))
   \<and> Contains (new_StorageAPI None) ''k''
        (SaveItem (new_StorageAPI None) ''k'' \<lparr>value = JNum 42\<rparr> (fresh_world True 5000))\<close>
  using C6_contains_ignores_expiration [where this = \<open>new_StorageAPI None\<close> and key = \<open>''k''\<close>
      and w = \<open>fresh_world True 5000\<close>
      and item = \<open>\<lparr>value = JNum 42, expires = \<lparr>creationDate = 0, expiresIn = 10\<rparr>\<rparr>\<close>
      and item' = \<open>\<lparr>value = JNum 42\<rparr>\<close> and t = 0]
  by (simp add: fresh_world_def)

subsection \<open>C7: outside a browsing context\<close>

text \<open>
  C7: outside a browsing context \<^verbatim>\<open>SaveItem\<close> and \<^verbatim>\<open>SaveItemWithExpiration\<close> leave
  the world as it is, and \<^verbatim>\<open>GetItem\<close> returns \<^verbatim>\<open>null\<close> whatever the storage areas
  hold, changing nothing and throwing nothing.
\<close>

theorem C7_noop_outside_browser:
  "\<not> browser w \<Longrightarrow>
     SaveItem this key item w = w
   \<and> SaveItemWithExpiration this key item' w = w
   \<and> GetItem this key w = (Inr JNull, w)"
  by (simp add: SaveItem_def SaveItemWithExpiration_def GetItem_def)

text \<open>Witness for C7: a world outside a browsing context whose durable area holds a text
  that does not decode.\<close>

theorem C7_witness:
  \<open>\<not> browser \<lparr>browser = False, now = 5, localStorage = [''k'' \<mapsto> ''{broken''], sessionStorage = Map.empty\<rparr>
   \<and> SaveItem (new_StorageAPI None) ''k'' \<lparr>value = JNum 1\<rparr>
        \<lparr>browser = False, now = 5, localStorage = [''k'' \<mapsto> ''{broken''], sessionStorage = Map.empty\<rparr>
      = \<lparr>browser = False, now = 5, localStorage = [''k'' \<mapsto> ''{broken''], sessionStorage = Map.empty\<rparr>
   \<and> SaveItemWithExpiration (new_StorageAPI None) ''k''
        \<lparr>value = JNum 1, expires = \<lparr>creationDate = 5, expiresIn = 60\<rparr>\<rparr>
        \<lparr>browser = False, now = 5, localStorage = [''k'' \<mapsto> ''{broken''], sessionStorage = Map.empty\<rparr>
      = \<lparr>browser = False, now = 5, localStorage = [''k'' \<mapsto> ''{broken''], sessionStorage = Map.empty\<rparr>
   \<and> fst (GetItem (new_StorageAPI None) ''k''
        \<lparr>browser = False, now = 5, localStorage = [''k'' \<mapsto> ''{broken''], sessionStorage = Map.empty\<rparr>)
      = Inr JNull\<close>
  using C7_noop_outside_browser [where
      w = \<open>\<lparr>browser = False, now = 5, localStorage = [''k'' \<mapsto> ''{broken''], sessionStorage = Map.empty\<rparr>\<close>
      and this = \<open>new_StorageAPI None\<close> and key = \<open>''k''\<close> and item = \<open>\<lparr>value = JNum 1\<rparr>\<close>
      and item' = \<open>\<lparr>value = JNum 1, expires = \<lparr>creationDate = 5, expiresIn = 60\<rparr>\<rparr>\<close>]
  by simp

subsection \<open>C8: Clear\<close>

text \<open>
  C8: \<^verbatim>\<open>Clear\<close> returns \<^verbatim>\<open>true\<close> and leaves the backend chosen at construction without
  any key; afterwards, for every key, \<^verbatim>\<open>Contains\<close> is false and \<^verbatim>\<open>GetItem\<close> returns
  \<^verbatim>\<open>null\<close>, changing nothing.
\<close>

theorem C8_clear_empties_backend:
  "fst (Clear this w) = True
   \<and> dom (backend this (snd (Clear this w))) = {}
   \<and> \<not> Contains this key (snd (Clear this w))
   \<and> GetItem this key (snd (Clear this w)) = (Inr JNull, snd (Clear this w))"
  by (simp add: Clear_def Contains_def GetItem_def backend_put_backend getItem_def clear_def)

text \<open>Witness for C8: a durable area with two keys.\<close>

theorem C8_witness:
  \<open>fst (Clear (new_StorageAPI None)
       \<lparr>browser = True, now = 0, localStorage = [''a'' \<mapsto> ''1'', ''b'' \<mapsto> ''{"value":2}''],
        sessionStorage = [''a'' \<mapsto> ''3'']\<rparr>) = True
   \<and> \<not> Contains (new_StorageAPI None) ''b''
       (snd (Clear (new_StorageAPI None)
         \<lparr>browser = True, now = 0, localStorage = [''a'' \<mapsto> ''1'', ''b'' \<mapsto> ''{"value":2}''],
          sessionStorage = [''a'' \<mapsto> ''3'']\<rparr>))
   \<and> fst (GetItem (new_StorageAPI None) ''b''
       (snd (Clear (new_StorageAPI None)
         \<lparr>browser = True, now = 0, localStorage = [''a'' \<mapsto> ''1'', ''b'' \<mapsto> ''{"value":2}''],
          sessionStorage = [''a'' \<mapsto> ''3'']\<rparr>))) = Inr JNull\<close>
  using C8_clear_empties_backend [where this = \<open>new_StorageAPI None\<close>
      and w = \<open>\<lparr>browser = True, now = 0, localStorage = [''a'' \<mapsto> ''1'', ''b'' \<mapsto> ''{"value":2}''],
        sessionStorage = [''a'' \<mapsto> ''3'']\<rparr>\<close> and key = \<open>''b''\<close>]
  by simp

subsection \<open>C9: the comparison with the current instant is strict\<close>

text \<open>
  C9: in a browsing context, for an entry whose decoded \<^verbatim>\<open>expires\<close> is a number, a read
  at the instant exactly equal to it returns the stored value and changes nothing; and
  the key is gone after the read only if the current instant strictly exceeds that number.
\<close>

theorem C9_strict_comparison:
  assumes "browser w"
    and "getItem (backend this w) key = Some stringValue"
    and "JSON_parse stringValue = Some item"
    and "opt_member item ''expires'' = JNum e"
  shows "(e = now w \<longrightarrow> GetItem this key w = (Inr (own_prop item ''value''), w))
       \<and> (\<not> Contains this key (snd (GetItem this key w)) \<longrightarrow> e < now w)"
proof -
  have ne: "stringValue \<noteq> []"
    using assms(3) JSON_parse_Nil by auto
  have m: "member item ''value'' = Inr (own_prop item ''value'')"
    using assms(4) by (simp add: opt_member_not_nullish member_not_nullish)
  have g: "GetItem this key w =
      (if e \<noteq> 0 \<and> e < now w
       then (Inr JNull, put_backend this (removeItem (backend this w) key) w)
       else (Inr (own_prop item ''value''), w))"
    using assms ne m by (simp add: GetItem_def)
  have c: "Contains this key w"
    using assms(2) by (simp add: Contains_def)
  show ?thesis
    using c by (auto simp: g)
qed

text \<open>Witness for C9: the entry \<^verbatim>\<open>{"value":42,"expires":10}\<close> read at instant 10 is
  returned and kept; read at instant 11 it is evicted.\<close>

theorem C9_witness:
  \<open>GetItem (new_StorageAPI None) ''x''
      \<lparr>browser = True, now = 10, localStorage = [''x'' \<mapsto> ''{"value":42,"expires":10}''],
       sessionStorage = Map.empty\<rparr>
    = (Inr (JNum 42),
      \<lparr>browser = True, now = 10, localStorage = [''x'' \<mapsto> ''{"value":42,"expires":10}''],
       sessionStorage = Map.empty\<rparr>)
   \<and> \<not> Contains (new_StorageAPI None) ''x''
      (snd (GetItem (new_StorageAPI None) ''x''
        \<lparr>browser = True, now = 11, localStorage = [''x'' \<mapsto> ''{"value":42,"expires":10}''],
         sessionStorage = Map.empty\<rparr>))
   \<and> (10::int) < now \<lparr>browser = True, now = 11,
        localStorage = [''x'' \<mapsto> ''{"value":42,"expires":10}''], sessionStorage = Map.empty\<rparr>\<close>
  using C9_strict_comparison [where
      w = \<open>\<lparr>browser = True, now = 10, localStorage = [''x'' \<mapsto> ''{"value":42,"expires":10}''],
        sessionStorage = Map.empty\<rparr>\<close>
      and this = \<open>new_StorageAPI None\<close> and key = \<open>''x''\<close>
      and stringValue = \<open>''{"value":42,"expires":10}''\<close>
      and item = \<open>JObj [(''value'', JNum 42), (''expires'', JNum 10)]\<close> and e = 10]
    C9_strict_comparison [where
      w = \<open>\<lparr>browser = True, now = 11, localStorage = [''x'' \<mapsto> ''{"value":42,"expires":10}''],
        sessionStorage = Map.empty\<rparr>\<close>
      and this = \<open>new_StorageAPI None\<close> and key = \<open>''x''\<close>
      and stringValue = \<open>''{"value":42,"expires":10}''\<close>
      and item = \<open>JObj [(''value'', JNum 42), (''expires'', JNum 10)]\<close> and e = 10]
  by (simp add: GetItem_def Contains_def storage_eval parse_eval code_unit_def member_eval)

subsection \<open>C10: a falsy expires is no expiration\<close>

text \<open>
  C10: in a browsing context, for a stored entry that decodes to a value other than
  \<^verbatim>\<open>null\<close> whose \<^verbatim>\<open>expires\<close> is falsy (0, absent, \<^verbatim>\<open>null\<close>, \<^verbatim>\<open>false\<close> or the empty
  string), \<^verbatim>\<open>GetItem\<close> returns the stored value at every instant \<open>t\<close> and changes
  nothing.
\<close>

theorem C10_falsy_expires_never_expires:
  assumes "browser w"
    and "getItem (backend this w) key = Some stringValue"
    and "JSON_parse stringValue = Some item"
    and "\<not> nullish item"
    and "\<not> truthy (opt_member item ''expires'')"
  shows "GetItem this key (w\<lparr>now := t\<rparr>) = (Inr (own_prop item ''value''), w\<lparr>now := t\<rparr>)"
proof -
  have ne: "stringValue \<noteq> []"
    using assms(3) JSON_parse_Nil by auto
  show ?thesis
    using assms ne by (simp add: GetItem_def backend_now_update member_not_nullish)
qed

text \<open>Witness for C10: the entry \<^verbatim>\<open>{"value":42,"expires":0}\<close> read at instant 99999.\<close>

theorem C10_witness:
  \<open>GetItem (new_StorageAPI None) ''x''
      \<lparr>browser = True, now = 99999, localStorage = [''x'' \<mapsto> ''{"value":42,"expires":0}''],
       sessionStorage = Map.empty\<rparr>
    = (Inr (JNum 42),
      \<lparr>browser = True, now = 99999, localStorage = [''x'' \<mapsto> ''{"value":42,"expires":0}''],
       sessionStorage = Map.empty\<rparr>)\<close>
  using C10_falsy_expires_never_expires [where
      w = \<open>\<lparr>browser = True, now = 5, localStorage = [''x'' \<mapsto> ''{"value":42,"expires":0}''],
        sessionStorage = Map.empty\<rparr>\<close>
      and this = \<open>new_StorageAPI None\<close> and key = \<open>''x''\<close>
      and stringValue = \<open>''{"value":42,"expires":0}''\<close>
      and item = \<open>JObj [(''value'', JNum 42), (''expires'', JNum 0)]\<close> and t = 99999]
  by (simp add: storage_eval parse_eval code_unit_def member_eval)

end
